theory Spec2Isabelle
  imports Complex_Main "HOL-Library.Log_Nat"
begin

section \<open>Python values and exceptions\<close>

text \<open>
  The token module \<^verbatim>\<open>api/tokens.py\<close> is pure Python over unbounded integers, floats,
  strings, lists and dictionaries. Exceptions are values: a computation that may raise has
  type \<open>error + 'a\<close>, with \<open>Inl\<close> the exception.
\<close>

datatype error = KeyError | TypeError | AttributeError | OverflowError | ZeroDivisionError

definition bind_err :: "error + 'a \<Rightarrow> ('a \<Rightarrow> error + 'b) \<Rightarrow> error + 'b" where
  "bind_err m f = (case m of Inl e \<Rightarrow> Inl e | Inr x \<Rightarrow> f x)"

text \<open>
  The JSON-shaped values a chat message is made of. \<open>PNone\<close> stands for \<^verbatim>\<open>None\<close> (and for
  any other value that is neither a string, a list nor a dictionary). A dictionary is the
  list of its items in insertion order.
\<close>

datatype pyval = PStr string | PList "pyval list" | PDict "(string \<times> pyval) list" | PNone

text \<open>\<^verbatim>\<open>item.get(key)\<close>: only a dictionary has the method; a missing key gives \<^verbatim>\<open>None\<close>.\<close>

fun py_get :: "pyval \<Rightarrow> string \<Rightarrow> error + pyval" where
  "py_get (PDict d) k = Inr (case map_of d k of Some v \<Rightarrow> v | None \<Rightarrow> PNone)"
| "py_get (PStr s) k = Inl AttributeError"
| "py_get (PList xs) k = Inl AttributeError"
| "py_get PNone k = Inl AttributeError"

text \<open>\<^verbatim>\<open>message.items()\<close>.\<close>

fun py_items :: "pyval \<Rightarrow> error + (string \<times> pyval) list" where
  "py_items (PDict d) = Inr d"
| "py_items (PStr s) = Inl AttributeError"
| "py_items (PList xs) = Inl AttributeError"
| "py_items PNone = Inl AttributeError"

text \<open>\<^verbatim>\<open>xs[:n]\<close>: a negative bound counts from the end of the list.\<close>

definition slice_to :: "'a list \<Rightarrow> int \<Rightarrow> 'a list" where
  "slice_to xs n = (if 0 \<le> n then take (nat n) xs else take (nat (int (length xs) + n)) xs)"

section \<open>Python floats\<close>

text \<open>
  A Python float is an IEEE 754 binary64 number. A finite float is modelled by the real
  number it denotes; \<open>round_binary64\<close> rounds a real to the nearest float, ties to the even
  significand, with gradual underflow below \<open>2 powi - 1022\<close> and no upper limit: the
  operations below turn a rounded result of magnitude \<open>2 ^ 1024\<close> or more into the
  overflow it is.

  \<open>binary_exponent x\<close> is the integer \<open>e\<close> with \<open>2 powi e \<le> x < 2 powi (e + 1)\<close>, for
  positive \<open>x\<close>.
\<close>

definition binary_exponent :: "real \<Rightarrow> int" where
  "binary_exponent x =
     (if 1 \<le> x then bitlen \<lfloor>x\<rfloor> - 1 else - bitlen (\<lceil>1 / x\<rceil> - 1))"

definition round_half_even :: "real \<Rightarrow> int" where
  "round_half_even y =
     (let f = \<lfloor>y\<rfloor>; d = y - of_int f in
      if d < 1 / 2 then f else if 1 / 2 < d then f + 1 else if even f then f else f + 1)"

definition round_binary64 :: "real \<Rightarrow> real" where
  "round_binary64 x =
     (if x = 0 then 0
      else let e = max (binary_exponent \<bar>x\<bar>) (- 1022); u = 2 powi (e - 52)
           in of_int (round_half_even (x / u)) * u)"

definition finite_or_overflow :: "real \<Rightarrow> error + real" where
  "finite_or_overflow r = (if 2 ^ 1024 \<le> \<bar>r\<bar> then Inl OverflowError else Inr r)"

text \<open>Conversion of an integer operand to float (\<^verbatim>\<open>int too large to convert to float\<close>).\<close>

definition int_to_float :: "int \<Rightarrow> error + real" where
  "int_to_float n = finite_or_overflow (round_binary64 (of_int n))"

text \<open>\<^verbatim>\<open>a / b\<close> on two integers: the correctly rounded quotient.\<close>

definition truediv :: "int \<Rightarrow> int \<Rightarrow> error + real" where
  "truediv a b =
     (if b = 0 then Inl ZeroDivisionError
      else finite_or_overflow (round_binary64 (of_int a / of_int b)))"

text \<open>
  \<^verbatim>\<open>n * s\<close> on an integer and a float: the integer is converted, the product rounded. A
  product that overflows is an infinity in Python, and the \<^verbatim>\<open>int(...)\<close> around each product
  of the module raises \<^verbatim>\<open>OverflowError\<close> on it; the model raises at the product.
\<close>

definition int_mul_float :: "int \<Rightarrow> real \<Rightarrow> error + real" where
  "int_mul_float n s =
     bind_err (int_to_float n) (\<lambda>x. finite_or_overflow (round_binary64 (x * s)))"

text \<open>\<^verbatim>\<open>int(x)\<close> truncates towards zero; \<^verbatim>\<open>math.ceil(x)\<close> is the ceiling.\<close>

definition py_int :: "real \<Rightarrow> int" where
  "py_int x = (if 0 \<le> x then \<lfloor>x\<rfloor> else \<lceil>x\<rceil>)"

definition math_ceil :: "real \<Rightarrow> int" where
  "math_ceil x = \<lceil>x\<rceil>"

section \<open>The tokenizer library\<close>

text \<open>
  \<^verbatim>\<open>tiktoken\<close> is not part of the repository: an encoding is a parameter, a pair of
  functions between text and token identifiers, and the library is a parameter too.
  \<open>encoding_for_model\<close> is \<open>None\<close> where the library raises \<^verbatim>\<open>KeyError\<close> (no encoding is
  registered for the model name). Encoding a string and decoding a list of token
  identifiers are taken to return; a model name is a string.
\<close>

record encoding =
  encode :: "string \<Rightarrow> nat list"
  decode :: "nat list \<Rightarrow> string"

record tiktoken =
  encoding_for_model :: "string \<Rightarrow> encoding option"
  get_encoding :: "string \<Rightarrow> encoding"

text \<open>\<^verbatim>\<open>encoding.encode(value)\<close> on a message value: only a string can be encoded.\<close>

fun encode_value :: "encoding \<Rightarrow> pyval \<Rightarrow> error + nat list" where
  "encode_value enc (PStr s) = Inr (encode enc s)"
| "encode_value enc (PList xs) = Inl TypeError"
| "encode_value enc (PDict d) = Inl TypeError"
| "encode_value enc PNone = Inl TypeError"

section \<open>api/tokens.py\<close>

subsection \<open>calculate_image_tokens\<close>

definition calculate_image_tokens :: "int \<Rightarrow> int \<Rightarrow> string \<Rightarrow> error + int" where
  "calculate_image_tokens width height detail =
    (if detail = ''low'' then Inr 85
     else
      let max_dimension = max width height in
      bind_err
        (if max_dimension > 2048 then
           bind_err (truediv 2048 max_dimension) (\<lambda>scale_factor.
           bind_err (int_mul_float width scale_factor) (\<lambda>scaled_width.
           bind_err (int_mul_float height scale_factor) (\<lambda>scaled_height.
           Inr (py_int scaled_width, py_int scaled_height))))
         else Inr (width, height))
        (\<lambda>(width, height).
      let min_dimension = min width height in
      bind_err
        (if min_dimension > 768 then
           bind_err (truediv 768 min_dimension) (\<lambda>scale_factor.
           bind_err (int_mul_float width scale_factor) (\<lambda>scaled_width.
           bind_err (int_mul_float height scale_factor) (\<lambda>scaled_height.
           Inr (py_int scaled_width, py_int scaled_height))))
         else Inr (width, height))
        (\<lambda>(width, height).
      bind_err (truediv width 512) (\<lambda>tiles_w.
      bind_err (truediv height 512) (\<lambda>tiles_h.
      let num_masks_w = math_ceil tiles_w;
          num_masks_h = math_ceil tiles_h;
          total_masks = num_masks_w * num_masks_h;
          tokens_per_mask = 170;
          total_tokens = total_masks * tokens_per_mask + 85
      in Inr total_tokens)))))"

subsection \<open>num_tokens_from_messages\<close>

text \<open>The loop over the parts of a list-valued field, threading \<open>num_tokens\<close>.\<close>

fun count_items :: "encoding \<Rightarrow> pyval list \<Rightarrow> int \<Rightarrow> error + int" where
  "count_items encoding [] num_tokens = Inr num_tokens"
| "count_items encoding (item # rest) num_tokens =
     (case py_get item ''type'' of
        Inl e \<Rightarrow> Inl e
      | Inr ty \<Rightarrow>
         (case (if ty = PStr ''text'' then
                  bind_err (py_get item ''text'') (\<lambda>text.
                  bind_err (encode_value encoding text) (\<lambda>toks.
                  Inr (num_tokens + int (length toks))))
                else Inr num_tokens) of
            Inl e \<Rightarrow> Inl e
          | Inr num_tokens' \<Rightarrow>
             (case py_get item ''type'' of
                Inl e \<Rightarrow> Inl e
              | Inr ty' \<Rightarrow>
                 count_items encoding rest
                   (if ty' = PStr ''image_url'' then num_tokens' else num_tokens'))))"

text \<open>The loop over the fields of one message.\<close>

fun count_fields :: "encoding \<Rightarrow> (string \<times> pyval) list \<Rightarrow> int \<Rightarrow> error + int" where
  "count_fields encoding [] num_tokens = Inr num_tokens"
| "count_fields encoding ((key, val) # rest) num_tokens =
     (case (case val of
              PList items \<Rightarrow> count_items encoding items num_tokens
            | PStr s \<Rightarrow>
                bind_err (encode_value encoding val) (\<lambda>toks. Inr (num_tokens + int (length toks)))
            | PDict d \<Rightarrow>
                bind_err (encode_value encoding val) (\<lambda>toks. Inr (num_tokens + int (length toks)))
            | PNone \<Rightarrow>
                bind_err (encode_value encoding val) (\<lambda>toks. Inr (num_tokens + int (length toks)))) of
        Inl e \<Rightarrow> Inl e
      | Inr num_tokens' \<Rightarrow> count_fields encoding rest num_tokens')"

text \<open>The loop over the messages.\<close>

fun count_messages :: "encoding \<Rightarrow> int \<Rightarrow> pyval list \<Rightarrow> int \<Rightarrow> error + int" where
  "count_messages encoding tokens_per_message [] num_tokens = Inr num_tokens"
| "count_messages encoding tokens_per_message (message # rest) num_tokens =
     (case py_items message of
        Inl e \<Rightarrow> Inl e
      | Inr message_fields \<Rightarrow>
         (case count_fields encoding message_fields (num_tokens + tokens_per_message) of
            Inl e \<Rightarrow> Inl e
          | Inr num_tokens' \<Rightarrow>
              count_messages encoding tokens_per_message rest (num_tokens' + 3)))"

definition num_tokens_from_messages :: "tiktoken \<Rightarrow> pyval list \<Rightarrow> string \<Rightarrow> error + int" where
  "num_tokens_from_messages tk messages model =
     (let encoding = (case encoding_for_model tk model of
                        Some enc \<Rightarrow> enc
                      | None \<Rightarrow> get_encoding tk ''cl100k_base'');
          tokens_per_message = (if model = ''gpt-3.5-turbo-0301'' then 4 else 3)
      in count_messages encoding tokens_per_message messages 0)"

subsection \<open>num_tokens_from_content\<close>

definition num_tokens_from_content :: "tiktoken \<Rightarrow> string \<Rightarrow> string \<Rightarrow> int" where
  "num_tokens_from_content tk content model =
     (let encoding = (case encoding_for_model tk model of
                        Some enc \<Rightarrow> enc
                      | None \<Rightarrow> get_encoding tk ''cl100k_base'');
          encoded_content = encode encoding content;
          len_encoded_content = int (length encoded_content)
      in len_encoded_content)"

subsection \<open>split_tokens_from_content\<close>

definition split_tokens_from_content ::
  "tiktoken \<Rightarrow> string \<Rightarrow> int \<Rightarrow> string \<Rightarrow> string \<times> int \<times> string" where
  "split_tokens_from_content tk content max_tokens model =
     (let encoding = (case encoding_for_model tk model of
                        Some enc \<Rightarrow> enc
                      | None \<Rightarrow> get_encoding tk ''cl100k_base'');
          encoded_content = encode encoding content;
          len_encoded_content = int (length encoded_content)
      in if len_encoded_content \<ge> max_tokens
         then (decode encoding (slice_to encoded_content max_tokens), max_tokens, ''length'')
         else (content, len_encoded_content, ''stop''))"

section \<open>The specification's reading\<close>

text \<open>
  The encoder resolver of the specification: the encoding registered for the model, the
  \<^verbatim>\<open>cl100k_base\<close> encoding otherwise. The three token operations each inline it.
\<close>

definition encoder_for :: "tiktoken \<Rightarrow> string \<Rightarrow> encoding" where
  "encoder_for tk model =
     (case encoding_for_model tk model of
        Some enc \<Rightarrow> enc
      | None \<Rightarrow> get_encoding tk ''cl100k_base'')"

definition tokens_for_text :: "encoding \<Rightarrow> string \<Rightarrow> int" where
  "tokens_for_text enc text = int (length (encode enc text))"

text \<open>
  Message shapes of the specification's data model: a message is a record of fields, a
  field value is a string or a list of content parts, a content part is a dictionary, and a
  part of type \<^verbatim>\<open>text\<close> carries a string under \<^verbatim>\<open>text\<close>.
\<close>

fun well_formed_part :: "pyval \<Rightarrow> bool" where
  "well_formed_part (PDict d) =
     (if map_of d ''type'' = Some (PStr ''text'')
      then (case map_of d ''text'' of Some (PStr s) \<Rightarrow> True | _ \<Rightarrow> False)
      else True)"
| "well_formed_part (PStr s) = False"
| "well_formed_part (PList xs) = False"
| "well_formed_part PNone = False"

fun well_formed_value :: "pyval \<Rightarrow> bool" where
  "well_formed_value (PStr s) = True"
| "well_formed_value (PList parts) = list_all well_formed_part parts"
| "well_formed_value (PDict d) = False"
| "well_formed_value PNone = False"

fun well_formed_message :: "pyval \<Rightarrow> bool" where
  "well_formed_message (PDict d) = list_all (\<lambda>(key, val). well_formed_value val) d"
| "well_formed_message (PStr s) = False"
| "well_formed_message (PList xs) = False"
| "well_formed_message PNone = False"

text \<open>
  The message total as the specification words it: a part of type \<^verbatim>\<open>text\<close> costs the tokens
  of its text, a part of type \<^verbatim>\<open>image_url\<close> (or of any other type) costs nothing, a string
  field costs its tokens, and every message adds the per-message overhead and 3.
\<close>

fun spec_part_tokens :: "encoding \<Rightarrow> pyval \<Rightarrow> int" where
  "spec_part_tokens enc (PDict d) =
     (if map_of d ''type'' = Some (PStr ''text'')
      then (case map_of d ''text'' of Some (PStr s) \<Rightarrow> tokens_for_text enc s | _ \<Rightarrow> 0)
      else 0)"
| "spec_part_tokens enc (PStr s) = 0"
| "spec_part_tokens enc (PList xs) = 0"
| "spec_part_tokens enc PNone = 0"

fun spec_value_tokens :: "encoding \<Rightarrow> pyval \<Rightarrow> int" where
  "spec_value_tokens enc (PList parts) = sum_list (map (spec_part_tokens enc) parts)"
| "spec_value_tokens enc (PStr s) = tokens_for_text enc s"
| "spec_value_tokens enc (PDict d) = 0"
| "spec_value_tokens enc PNone = 0"

fun spec_message_tokens :: "encoding \<Rightarrow> int \<Rightarrow> pyval \<Rightarrow> int" where
  "spec_message_tokens enc per_message_overhead (PDict d) =
     per_message_overhead + sum_list (map (\<lambda>(key, val). spec_value_tokens enc val) d) + 3"
| "spec_message_tokens enc per_message_overhead (PStr s) = 0"
| "spec_message_tokens enc per_message_overhead (PList xs) = 0"
| "spec_message_tokens enc per_message_overhead PNone = 0"

definition per_message_overhead :: "string \<Rightarrow> int" where
  "per_message_overhead model = (if model = ''gpt-3.5-turbo-0301'' then 4 else 3)"

text \<open>
  The truncation as the specification words it: the first \<open>max_tokens\<close> token identifiers
  are kept when the text has at least that many.
\<close>

definition spec_truncate :: "encoding \<Rightarrow> string \<Rightarrow> int \<Rightarrow> string \<times> int \<times> string" where
  "spec_truncate enc text max_tokens =
     (let toks = encode enc text; encoded_length = int (length toks)
      in if encoded_length \<ge> max_tokens
         then (decode enc (take (nat max_tokens) toks), max_tokens, ''length'')
         else (text, encoded_length, ''stop''))"

text \<open>
  The image estimate as the specification words it, in exact arithmetic: each stage scales
  by the quotient and truncates, the second stage works on the output of the first, and the
  tiles are counted on the final dimensions.
\<close>

definition spec_scale :: "int \<Rightarrow> int \<Rightarrow> int \<Rightarrow> int" where
  "spec_scale bound side n = \<lfloor>real_of_int n * (real_of_int bound / real_of_int side)\<rfloor>"

definition spec_tokens_for_image :: "int \<Rightarrow> int \<Rightarrow> int" where
  "spec_tokens_for_image width height =
     (let m = max width height;
          w1 = (if m > 2048 then spec_scale 2048 m width else width);
          h1 = (if m > 2048 then spec_scale 2048 m height else height);
          n = min w1 h1;
          w2 = (if n > 768 then spec_scale 768 n w1 else w1);
          h2 = (if n > 768 then spec_scale 768 n h1 else h1)
      in \<lceil>real_of_int w2 / 512\<rceil> * \<lceil>real_of_int h2 / 512\<rceil> * 170 + 85)"

section \<open>A sample tokenizer\<close>

text \<open>
  A concrete library to run the operations on: one token per character, registered for
  the model \<^verbatim>\<open>gpt-4\<close> and serving as \<^verbatim>\<open>cl100k_base\<close> too.
\<close>

definition char_encoding :: encoding where
  "char_encoding = \<lparr>encode = map of_char, decode = map char_of\<rparr>"

definition sample_tiktoken :: tiktoken where
  "sample_tiktoken =
     \<lparr>encoding_for_model = (\<lambda>model. if model = ''gpt-4'' then Some char_encoding else None),
      get_encoding = (\<lambda>name. char_encoding)\<rparr>"

definition sample_messages :: "pyval list" where
  "sample_messages =
     [PDict [(''role'', PStr ''system''), (''content'', PStr ''be brief'')],
      PDict [(''role'', PStr ''user''),
             (''content'', PList [PDict [(''type'', PStr ''text''), (''text'', PStr ''hi'')],
                                  PDict [(''type'', PStr ''image_url''),
                                         (''image_url'', PDict [(''url'', PStr ''u'')])]])],
      PDict [(''role'', PStr ''assistant''), (''content'', PStr ''ok'')]]"

section \<open>The message loops\<close>

text \<open>
  Each loop adds to the running total it is given, so a loop started at any total is the
  loop started at 0, shifted; and the per-message overhead adds up to one overhead for each
  message.
\<close>

lemma map_sum_shift_shift:
  "map_sum (\<lambda>e. e) ((+) (a::int)) (map_sum (\<lambda>e. e) ((+) b) r) = map_sum (\<lambda>e. e) ((+) (a + b)) r"
  by (cases r) auto

lemma count_items_acc:
  "count_items enc items acc = map_sum (\<lambda>e. e) ((+) acc) (count_items enc items 0)"
proof (induction items arbitrary: acc)
  case Nil
  then show ?case by simp
next
  case (Cons item items)
  have step: "count_items enc items (acc + k) = map_sum (\<lambda>e. e) ((+) acc) (count_items enc items k)" for k
    using Cons.IH[of "acc + k"] Cons.IH[of k] by (simp add: map_sum_shift_shift)
  show ?case
    using step Cons.IH[of acc] by (auto simp: bind_err_def split: sum.splits)
qed

lemma count_fields_acc:
  "count_fields enc fs acc = map_sum (\<lambda>e. e) ((+) acc) (count_fields enc fs 0)"
proof (induction fs arbitrary: acc)
  case Nil
  then show ?case by simp
next
  case (Cons f fs)
  obtain key val where f: "f = (key, val)" by (cases f)
  have step: "count_fields enc fs (acc + k) = map_sum (\<lambda>e. e) ((+) acc) (count_fields enc fs k)" for k
    using Cons.IH[of "acc + k"] Cons.IH[of k] by (simp add: map_sum_shift_shift)
  have items: "count_items enc xs acc = map_sum (\<lambda>e. e) ((+) acc) (count_items enc xs 0)" for xs
    by (rule count_items_acc)
  show ?case
  proof (cases val)
    case (PList xs)
    show ?thesis
    proof (cases "count_items enc xs 0")
      case (Inl e)
      then show ?thesis using items[of xs] by (simp add: f PList)
    next
      case (Inr n)
      then show ?thesis using items[of xs] step[of n] Cons.IH[of n] by (simp add: f PList)
    qed
  qed (use step Cons.IH[of acc] in \<open>auto simp: f bind_err_def\<close>)
qed

lemma count_messages_acc:
  "count_messages enc tpm msgs acc = map_sum (\<lambda>e. e) ((+) acc) (count_messages enc tpm msgs 0)"
proof (induction msgs arbitrary: acc)
  case Nil
  then show ?case by simp
next
  case (Cons m msgs)
  have step: "count_messages enc tpm msgs (acc + k) =
              map_sum (\<lambda>e. e) ((+) acc) (count_messages enc tpm msgs k)" for k
    using Cons.IH[of "acc + k"] Cons.IH[of k] by (simp add: map_sum_shift_shift)
  show ?case
  proof (cases "py_items m")
    case (Inl e)
    then show ?thesis by simp
  next
    case (Inr fs)
    show ?thesis
    proof (cases "count_fields enc fs 0")
      case (Inl e)
      then show ?thesis
        using Inr count_fields_acc[of enc fs "acc + tpm"] count_fields_acc[of enc fs tpm]
        by simp
    next
      case fr: (Inr n)
      have "count_fields enc fs (acc + tpm) = Inr (acc + tpm + n)"
        and "count_fields enc fs tpm = Inr (tpm + n)"
        using count_fields_acc[of enc fs "acc + tpm"] count_fields_acc[of enc fs tpm] fr
        by simp_all
      then show ?thesis
        using Inr step[of "tpm + n + 3"] by (simp add: add.assoc)
    qed
  qed
qed

lemma count_messages_overhead:
  "count_messages enc tpm msgs 0 =
     map_sum (\<lambda>e. e) ((+) (tpm * int (length msgs))) (count_messages enc 0 msgs 0)"
proof (induction msgs)
  case Nil
  then show ?case by simp
next
  case (Cons m msgs)
  show ?case
  proof (cases "py_items m")
    case (Inl e)
    then show ?thesis by simp
  next
    case (Inr fs)
    show ?thesis
    proof (cases "count_fields enc fs 0")
      case (Inl e)
      then show ?thesis
        using Inr count_fields_acc[of enc fs tpm] by simp
    next
      case fr: (Inr n)
      have a: "count_fields enc fs tpm = Inr (tpm + n)"
        using count_fields_acc[of enc fs tpm] fr by simp
      have b: "count_messages enc tpm msgs (tpm + n + 3) =
               map_sum (\<lambda>e. e) ((+) (tpm + n + 3)) (count_messages enc tpm msgs 0)"
        by (rule count_messages_acc)
      have c: "count_messages enc 0 msgs (n + 3) =
               map_sum (\<lambda>e. e) ((+) (n + 3)) (count_messages enc 0 msgs 0)"
        by (rule count_messages_acc)
      show ?thesis
        using Inr fr a b c Cons.IH
        by (cases "count_messages enc 0 msgs 0") (simp_all add: algebra_simps)
    qed
  qed
qed

lemma count_items_spec:
  "list_all well_formed_part items \<Longrightarrow>
   count_items enc items 0 = Inr (sum_list (map (spec_part_tokens enc) items))"
proof (induction items)
  case Nil
  then show ?case by simp
next
  case (Cons item items)
  then have wf: "well_formed_part item" and ih: "count_items enc items 0 = Inr (sum_list (map (spec_part_tokens enc) items))"
    by simp_all
  obtain d where d: "item = PDict d"
    using wf by (cases item) simp_all
  have acc: "count_items enc items k = Inr (k + sum_list (map (spec_part_tokens enc) items))" for k
    using count_items_acc[of enc items k] ih by simp
  show ?case
    using wf acc
    by (auto simp: d bind_err_def tokens_for_text_def split: option.splits pyval.splits if_splits)
qed

lemma count_fields_spec:
  "list_all (\<lambda>(key, val). well_formed_value val) fs \<Longrightarrow>
   count_fields enc fs 0 = Inr (sum_list (map (\<lambda>(key, val). spec_value_tokens enc val) fs))"
proof (induction fs)
  case Nil
  then show ?case by simp
next
  case (Cons f fs)
  obtain key val where f: "f = (key, val)" by (cases f)
  from Cons have wf: "well_formed_value val"
    and ih: "count_fields enc fs 0 = Inr (sum_list (map (\<lambda>(key, val). spec_value_tokens enc val) fs))"
    by (simp_all add: f)
  have acc: "count_fields enc fs k = Inr (k + sum_list (map (\<lambda>(key, val). spec_value_tokens enc val) fs))" for k
    using count_fields_acc[of enc fs k] ih by simp
  show ?case
  proof (cases val)
    case (PStr s)
    then show ?thesis using acc by (simp add: f bind_err_def tokens_for_text_def)
  next
    case (PList parts)
    then show ?thesis using acc wf count_items_spec[of parts enc] by (simp add: f)
  next
    case (PDict d)
    then show ?thesis using wf by simp
  next
    case PNone
    then show ?thesis using wf by simp
  qed
qed

lemma count_messages_spec:
  "list_all well_formed_message msgs \<Longrightarrow>
   count_messages enc tpm msgs 0 = Inr (sum_list (map (spec_message_tokens enc tpm) msgs))"
proof (induction msgs)
  case Nil
  then show ?case by simp
next
  case (Cons m msgs)
  then have wf: "well_formed_message m"
    and ih: "count_messages enc tpm msgs 0 = Inr (sum_list (map (spec_message_tokens enc tpm) msgs))"
    by simp_all
  obtain d where d: "m = PDict d"
    using wf by (cases m) simp_all
  have fs: "count_fields enc d tpm = Inr (tpm + sum_list (map (\<lambda>(key, val). spec_value_tokens enc val) d))"
    using count_fields_acc[of enc d tpm] count_fields_spec[of d enc] wf by (simp add: d)
  have acc: "count_messages enc tpm msgs k = Inr (k + sum_list (map (spec_message_tokens enc tpm) msgs))" for k
    using count_messages_acc[of enc tpm msgs k] ih by simp
  show ?case
    using fs acc by (simp add: d)
qed

section \<open>Message totals\<close>

text \<open>
  Claim C1. For every list of well-formed messages and every model,
  \<open>num_tokens_from_messages\<close> returns the sum, over the messages, of the per-message
  overhead, plus the tokens of every field value (for a list-valued field the tokens of the
  text of each part of type \<^verbatim>\<open>text\<close> and nothing for a part of type \<^verbatim>\<open>image_url\<close>, for a
  string field the tokens of the string), plus 3: the overhead and the 3 are added for
  every message. The overhead is the one fixed by the model, the same for every message.
\<close>

theorem num_tokens_from_messages_sum:
  assumes "list_all well_formed_message messages"
  shows "num_tokens_from_messages tk messages model =
         Inr (sum_list (map (spec_message_tokens (encoder_for tk model) (per_message_overhead model))
                messages))"
  using count_messages_spec[OF assms]
  by (simp add: num_tokens_from_messages_def encoder_for_def per_message_overhead_def Let_def)

theorem num_tokens_from_messages_sum_witness:
  "list_all well_formed_message sample_messages \<and>
   num_tokens_from_messages sample_tiktoken sample_messages ''gpt-4'' = Inr 49 \<and>
   sum_list (map (spec_message_tokens (encoder_for sample_tiktoken ''gpt-4'') (per_message_overhead ''gpt-4''))
     sample_messages) = 49"
proof -
  have wf: "list_all well_formed_message sample_messages"
    by code_simp
  have v: "sum_list (map (spec_message_tokens (encoder_for sample_tiktoken ''gpt-4'') (per_message_overhead ''gpt-4''))
     sample_messages) = 49"
    by code_simp
  show ?thesis
    using wf v num_tokens_from_messages_sum[OF wf, of sample_tiktoken "''gpt-4''"] by simp
qed

text \<open>
  Claim C6. The per-message overhead of \<open>num_tokens_from_messages\<close> is 4 when the model is
  exactly \<^verbatim>\<open>gpt-3.5-turbo-0301\<close> and 3 for every other model name, for a message list of
  any length: the result is the total counted with no overhead, plus the overhead for each
  message (and the same exception where the messages are malformed).
\<close>

theorem per_message_overhead_by_model:
  "num_tokens_from_messages tk messages model =
     (case count_messages (encoder_for tk model) 0 messages 0 of
        Inl e \<Rightarrow> Inl e
      | Inr n \<Rightarrow>
          Inr (n + (if model = ''gpt-3.5-turbo-0301'' then 4 else 3) * int (length messages)))"
  using count_messages_overhead[of "encoder_for tk model" 4 messages]
        count_messages_overhead[of "encoder_for tk model" 3 messages]
  by (auto simp: num_tokens_from_messages_def encoder_for_def Let_def split: sum.splits)

text \<open>Both branches on the sample messages (three messages) and on the first of them.\<close>

lemma per_message_overhead_samples:
  "num_tokens_from_messages sample_tiktoken sample_messages ''gpt-3.5-turbo-0301'' = Inr 52"
  "num_tokens_from_messages sample_tiktoken sample_messages '''' = Inr 49"
  "num_tokens_from_messages sample_tiktoken (take 1 sample_messages) ''gpt-3.5-turbo-0301'' = Inr 21"
  "num_tokens_from_messages sample_tiktoken (take 1 sample_messages) ''no-such-model'' = Inr 20"
  by code_simp+

section \<open>Truncation\<close>

text \<open>
  Claim C3, amended. For every text, every model and every \<open>max_tokens\<close> that is not
  negative, \<open>split_tokens_from_content\<close> returns the decoding of the first \<open>max_tokens\<close>
  token identifiers, \<open>max_tokens\<close> and \<^verbatim>\<open>length\<close> when the text has at least \<open>max_tokens\<close>
  tokens, and the text unchanged, its token count and \<^verbatim>\<open>stop\<close> otherwise.
\<close>

theorem split_tokens_from_content_first_tokens:
  assumes "0 \<le> max_tokens"
  shows "split_tokens_from_content tk content max_tokens model =
         spec_truncate (encoder_for tk model) content max_tokens"
  using assms
  by (simp add: split_tokens_from_content_def spec_truncate_def encoder_for_def slice_to_def Let_def)

theorem split_tokens_from_content_first_tokens_witness:
  "(0::int) \<le> 3 \<and>
   split_tokens_from_content sample_tiktoken ''hello'' 3 ''gpt-4'' = (''hel'', 3, ''length'') \<and>
   split_tokens_from_content sample_tiktoken ''hello'' 9 ''gpt-4'' = (''hello'', 5, ''stop'')"
proof -
  have a: "spec_truncate (encoder_for sample_tiktoken ''gpt-4'') ''hello'' 3 = (''hel'', 3, ''length'')"
    by code_simp
  have b: "spec_truncate (encoder_for sample_tiktoken ''gpt-4'') ''hello'' 9 = (''hello'', 5, ''stop'')"
    by code_simp
  show ?thesis
    using a b
      split_tokens_from_content_first_tokens[of 3 sample_tiktoken "''hello''" "''gpt-4''"]
      split_tokens_from_content_first_tokens[of 9 sample_tiktoken "''hello''" "''gpt-4''"]
    by simp
qed

text \<open>
  With a negative \<open>max_tokens\<close> the slice \<^verbatim>\<open>encoded_content[:max_tokens]\<close> drops tokens from
  the end instead of keeping none: on three tokens and \<open>max_tokens = - 1\<close> two tokens are
  decoded.
\<close>

theorem split_tokens_from_content_negative_counterexample:
  "split_tokens_from_content sample_tiktoken ''abc'' (- 1) ''gpt-4'' = (''ab'', - 1, ''length'') \<and>
   spec_truncate (encoder_for sample_tiktoken ''gpt-4'') ''abc'' (- 1) = ('''', - 1, ''length'')"
  by code_simp

text \<open>
  Claim C4, amended. For every text and model, \<open>split_tokens_from_content\<close> with
  \<open>max_tokens = 0\<close> returns the decoding of no tokens, 0 and \<^verbatim>\<open>length\<close>; with a negative
  \<open>max_tokens\<close> it returns the decoding of the tokens without their last \<open>- max_tokens\<close>,
  \<open>max_tokens\<close> itself and \<^verbatim>\<open>length\<close>.
\<close>

theorem split_tokens_from_content_nonpositive:
  assumes "max_tokens \<le> 0"
  shows "split_tokens_from_content tk content max_tokens model =
         (decode (encoder_for tk model)
            (if max_tokens = 0 then []
             else take (length (encode (encoder_for tk model) content) - nat (- max_tokens))
                    (encode (encoder_for tk model) content)),
          max_tokens, ''length'')"
proof -
  have "nat (int (length xs) + max_tokens) = length xs - nat (- max_tokens)" for xs :: "nat list"
    using assms by linarith
  then show ?thesis
    using assms
    by (simp add: split_tokens_from_content_def encoder_for_def slice_to_def Let_def)
qed

theorem split_tokens_from_content_nonpositive_witness:
  "(- 2::int) \<le> 0 \<and> (0::int) \<le> 0 \<and>
   split_tokens_from_content sample_tiktoken ''hello'' (- 2) ''gpt-4'' = (''hel'', - 2, ''length'') \<and>
   split_tokens_from_content sample_tiktoken ''hello'' 0 ''gpt-4'' = ('''', 0, ''length'')"
proof -
  have a: "decode (encoder_for sample_tiktoken ''gpt-4'')
             (take (length (encode (encoder_for sample_tiktoken ''gpt-4'') ''hello'') - nat (- (- 2)))
                (encode (encoder_for sample_tiktoken ''gpt-4'') ''hello'')) = ''hel''"
    by code_simp
  have b: "decode (encoder_for sample_tiktoken ''gpt-4'') [] = ''''"
    by code_simp
  show ?thesis
    using a b
      split_tokens_from_content_nonpositive[of "- 2" sample_tiktoken "''hello''" "''gpt-4''"]
      split_tokens_from_content_nonpositive[of 0 sample_tiktoken "''hello''" "''gpt-4''"]
    by simp
qed

text \<open>The degenerate triple is not what a negative \<open>max_tokens\<close> gives.\<close>

theorem split_tokens_from_content_degenerate_counterexample:
  "split_tokens_from_content sample_tiktoken ''hello'' (- 2) ''gpt-4'' \<noteq> ('''', 0, ''length'')"
  by code_simp

text \<open>
  Claim C5. For every text, \<open>max_tokens\<close> and model, the token count that
  \<open>split_tokens_from_content\<close> returns is at most \<open>max_tokens\<close>, and the reason is
  \<^verbatim>\<open>length\<close> if the count equals \<open>max_tokens\<close> and \<^verbatim>\<open>stop\<close> otherwise.
\<close>

theorem split_tokens_from_content_count_and_reason:
  "(case split_tokens_from_content tk content max_tokens model of
      (text, token_count, reason) \<Rightarrow>
        token_count \<le> max_tokens \<and>
        reason = (if token_count = max_tokens then ''length'' else ''stop''))"
  by (simp add: split_tokens_from_content_def Let_def)

section \<open>Encoder resolution\<close>

text \<open>
  Claim C8. For a model name the library has no encoding for, none of the three token
  operations fails on the lookup: each computes with the \<^verbatim>\<open>cl100k_base\<close> encoding.
\<close>

theorem unknown_model_falls_back_to_cl100k_base:
  assumes "encoding_for_model tk model = None"
  shows "num_tokens_from_content tk content model =
           int (length (encode (get_encoding tk ''cl100k_base'') content)) \<and>
         split_tokens_from_content tk content max_tokens model =
           (if int (length (encode (get_encoding tk ''cl100k_base'') content)) \<ge> max_tokens
            then (decode (get_encoding tk ''cl100k_base'')
                    (slice_to (encode (get_encoding tk ''cl100k_base'') content) max_tokens),
                  max_tokens, ''length'')
            else (content, int (length (encode (get_encoding tk ''cl100k_base'') content)), ''stop'')) \<and>
         num_tokens_from_messages tk messages model =
           count_messages (get_encoding tk ''cl100k_base'')
             (if model = ''gpt-3.5-turbo-0301'' then 4 else 3) messages 0"
  using assms
  by (simp add: num_tokens_from_content_def split_tokens_from_content_def
      num_tokens_from_messages_def Let_def)

theorem unknown_model_falls_back_to_cl100k_base_witness:
  "encoding_for_model sample_tiktoken ''no-such-model'' = None \<and>
   num_tokens_from_content sample_tiktoken ''hello'' ''no-such-model'' = 5 \<and>
   split_tokens_from_content sample_tiktoken ''hello'' 3 ''no-such-model'' = (''hel'', 3, ''length'') \<and>
   num_tokens_from_messages sample_tiktoken sample_messages ''no-such-model'' = Inr 49"
proof -
  have h: "encoding_for_model sample_tiktoken ''no-such-model'' = None"
    by code_simp
  have a: "int (length (encode (get_encoding sample_tiktoken ''cl100k_base'') ''hello'')) = 5"
    by code_simp
  have b: "decode (get_encoding sample_tiktoken ''cl100k_base'')
             (slice_to (encode (get_encoding sample_tiktoken ''cl100k_base'') ''hello'') 3) = ''hel''"
    by code_simp
  have c: "count_messages (get_encoding sample_tiktoken ''cl100k_base'')
             (if ''no-such-model'' = ''gpt-3.5-turbo-0301'' then 4 else 3) sample_messages 0 = Inr 49"
    by code_simp
  show ?thesis
    using h a b c
      unknown_model_falls_back_to_cl100k_base[OF h, of "''hello''" 3 sample_messages]
    by simp
qed

text \<open>
  The token count of a text is the length of what the model's encoding returns for it. On
  the empty string the count is therefore 0 exactly when that encoding gives the empty text
  no tokens, which the tokenizer library decides, not this module.
\<close>

lemma num_tokens_from_content_length:
  "num_tokens_from_content tk content model = int (length (encode (encoder_for tk model) content))"
  by (simp add: num_tokens_from_content_def encoder_for_def Let_def)

lemma num_tokens_from_content_empty_iff:
  "num_tokens_from_content tk '''' model = 0 \<longleftrightarrow> encode (encoder_for tk model) '''' = []"
  by (simp add: num_tokens_from_content_length)

section \<open>Rounding to binary64\<close>

text \<open>
  The exponent function brackets its argument between two powers of two, so it is the
  exponent of the binade the argument lies in.
\<close>

lemma bitlen_pos: "0 < n \<Longrightarrow> 1 \<le> bitlen n"
  using bitlen_eq_zero_iff[of n] bitlen_nonneg[of n] by linarith

lemma binary_exponent_bounds:
  assumes "0 < x"
  shows "2 powi (binary_exponent x) \<le> x \<and> x < 2 powi (binary_exponent x + 1)"
proof (cases "1 \<le> x")
  case True
  define n where "n = \<lfloor>x\<rfloor>"
  have n1: "1 \<le> n" using True by (simp add: n_def le_floor_iff)
  have b1: "1 \<le> bitlen n" using n1 by (intro bitlen_pos) simp
  have e: "binary_exponent x = bitlen n - 1"
    using True by (simp add: binary_exponent_def n_def)
  have lo: "(2::int) ^ nat (bitlen n - 1) \<le> n" and hi: "n < 2 ^ nat (bitlen n)"
    using bitlen_bounds[of n] n1 by simp_all
  have l: "(2::real) ^ nat (bitlen n - 1) \<le> x"
    using lo unfolding n_def le_floor_iff by simp
  have "n + 1 \<le> 2 ^ nat (bitlen n)" using hi by simp
  then have "real_of_int (n + 1) \<le> real_of_int (2 ^ nat (bitlen n))"
    by (simp only: of_int_le_iff)
  then have "real_of_int n + 1 \<le> 2 ^ nat (bitlen n)" by simp
  moreover have "x < real_of_int n + 1" unfolding n_def by linarith
  ultimately have h: "x < 2 ^ nat (bitlen n)" by linarith
  show ?thesis
    using l h b1 by (simp add: e power_int_nonneg_exp)
next
  case False
  define y where "y = 1 / x"
  have y1: "1 < y" using False assms by (simp add: y_def)
  define m where "m = \<lceil>y\<rceil> - 1"
  have m1: "1 \<le> m" using y1 by (simp add: m_def less_ceiling_iff)
  have k1: "1 \<le> bitlen m" using m1 by (intro bitlen_pos) simp
  have e: "binary_exponent x = - bitlen m"
    using False by (simp add: binary_exponent_def m_def y_def)
  have lo: "(2::int) ^ nat (bitlen m - 1) \<le> m" and hi: "m < 2 ^ nat (bitlen m)"
    using bitlen_bounds[of m] m1 by simp_all
  have "m + 1 \<le> 2 ^ nat (bitlen m)" using hi by simp
  then have "real_of_int (m + 1) \<le> real_of_int (2 ^ nat (bitlen m))"
    by (simp only: of_int_le_iff)
  then have "real_of_int m + 1 \<le> 2 ^ nat (bitlen m)" by simp
  moreover have "y \<le> real_of_int m + 1" unfolding m_def by simp
  ultimately have "y \<le> 2 ^ nat (bitlen m)" by linarith
  then have l: "1 / 2 ^ nat (bitlen m) \<le> x"
    using assms by (simp add: y_def field_simps)
  have "real_of_int (2 ^ nat (bitlen m - 1)) \<le> real_of_int m"
    using lo by (simp only: of_int_le_iff)
  then have "(2::real) ^ nat (bitlen m - 1) \<le> real_of_int m" by simp
  moreover have "real_of_int m < y" unfolding m_def by linarith
  ultimately have "2 ^ nat (bitlen m - 1) < y" by linarith
  then have h: "x < 1 / 2 ^ nat (bitlen m - 1)"
    using assms by (simp add: y_def field_simps)
  have p1: "(2::real) powi (- bitlen m) = 1 / 2 ^ nat (bitlen m)"
    using k1 by (simp add: power_int_minus_divide power_int_nonneg_exp)
  have p2: "(2::real) powi (- bitlen m + 1) = 1 / 2 ^ nat (bitlen m - 1)"
  proof -
    have "(2::real) powi (- bitlen m + 1) = 2 powi (- (bitlen m - 1))" by simp
    also have "\<dots> = 1 / 2 powi (bitlen m - 1)" by (rule power_int_minus_divide)
    also have "\<dots> = 1 / 2 ^ nat (bitlen m - 1)"
      using k1 by (simp add: power_int_nonneg_exp)
    finally show ?thesis .
  qed
  show ?thesis
    using l h by (simp only: e p1 p2 simp_thms)
qed

lemma binary_exponent_unique:
  assumes "2 powi k \<le> x" "x < 2 powi (k + 1)"
  shows "binary_exponent x = k"
proof -
  have pos: "0 < x"
    using assms(1) zero_less_power_int[of "2::real" k] by linarith
  let ?e = "binary_exponent x"
  have b: "2 powi ?e \<le> x" "x < 2 powi (?e + 1)"
    using binary_exponent_bounds[OF pos] by simp_all
  have "\<not> k + 1 \<le> ?e"
  proof
    assume "k + 1 \<le> ?e"
    then have "(2::real) powi (k + 1) \<le> 2 powi ?e"
      by (intro power_int_increasing) simp_all
    then show False using b(1) assms(2) by linarith
  qed
  moreover have "\<not> ?e + 1 \<le> k"
  proof
    assume "?e + 1 \<le> k"
    then have "(2::real) powi (?e + 1) \<le> 2 powi k"
      by (intro power_int_increasing) simp_all
    then show False using b(2) assms(1) by linarith
  qed
  ultimately show ?thesis by linarith
qed

lemma round_half_even_error: "\<bar>real_of_int (round_half_even y) - y\<bar> \<le> 1 / 2"
proof -
  have "real_of_int \<lfloor>y\<rfloor> \<le> y" "y < real_of_int \<lfloor>y\<rfloor> + 1"
    by linarith+
  then show ?thesis
    by (auto simp: round_half_even_def Let_def)
qed

lemma round_half_even_of_int [simp]: "round_half_even (real_of_int n) = n"
  by (simp add: round_half_even_def)

lemma round_half_even_nonneg: "0 \<le> y \<Longrightarrow> 0 \<le> round_half_even y"
  by (auto simp: round_half_even_def Let_def)

lemma round_half_even_nonpos: "y \<le> 0 \<Longrightarrow> round_half_even y \<le> 0"
proof -
  assume a: "y \<le> 0"
  have "real_of_int \<lfloor>y\<rfloor> \<le> y" "y < real_of_int \<lfloor>y\<rfloor> + 1"
    by linarith+
  then show ?thesis
    using a by (auto simp: round_half_even_def Let_def)
qed


lemma round_binary64_eq:
  assumes "2 powi k \<le> \<bar>x\<bar>" "\<bar>x\<bar> < 2 powi (k + 1)"
  shows "round_binary64 x =
         real_of_int (round_half_even (x / 2 powi (max k (- 1022) - 52))) * 2 powi (max k (- 1022) - 52)"
proof -
  have "0 < \<bar>x\<bar>"
    using assms(1) zero_less_power_int[of "2::real" k] by linarith
  then have "x \<noteq> 0" by simp
  then show ?thesis
    using binary_exponent_unique[OF assms] by (simp add: round_binary64_def Let_def)
qed

lemma half_ulp: "(2::real) powi (e - 52) / 2 = 2 powi (e - 53)"
  using power_int_add_1[of "2::real" "e - 53"] by simp

lemma round_binary64_error:
  "\<bar>round_binary64 x - x\<bar> \<le> 2 powi (max (binary_exponent \<bar>x\<bar>) (- 1022) - 53)"
proof (cases "x = 0")
  case True
  then show ?thesis by (simp add: round_binary64_def)
next
  case False
  define e where "e = max (binary_exponent \<bar>x\<bar>) (- 1022)"
  define u :: real where "u = 2 powi (e - 52)"
  have u: "0 < u" by (simp add: u_def)
  have fl: "round_binary64 x = real_of_int (round_half_even (x / u)) * u"
    using False by (simp add: round_binary64_def Let_def e_def u_def)
  have "round_binary64 x - x = (real_of_int (round_half_even (x / u)) - x / u) * u"
    using u by (simp add: fl field_simps)
  then have "\<bar>round_binary64 x - x\<bar> = \<bar>real_of_int (round_half_even (x / u)) - x / u\<bar> * u"
    using u by (simp add: abs_mult)
  also have "\<dots> \<le> 1 / 2 * u"
    using round_half_even_error[of "x / u"] u by (intro mult_right_mono) simp_all
  also have "\<dots> = 2 powi (e - 53)"
    using half_ulp[of e] by (simp add: u_def)
  finally show ?thesis by (simp add: e_def)
qed

lemma round_binary64_nonneg: "0 \<le> x \<Longrightarrow> 0 \<le> round_binary64 x"
  by (simp add: round_binary64_def Let_def round_half_even_nonneg)

lemma round_binary64_upper:
  assumes "0 \<le> x"
  shows "round_binary64 x \<le> x + x / 2 ^ 53 + 1 / 2 ^ 1075"
proof (cases "x = 0")
  case True
  then show ?thesis by (simp add: round_binary64_def)
next
  case False
  then have pos: "0 < x" using assms by simp
  define E where "E = binary_exponent x"
  have E: "2 powi E \<le> x"
    using binary_exponent_bounds[OF pos] by (simp add: E_def)
  have err: "\<bar>round_binary64 x - x\<bar> \<le> 2 powi (max E (- 1022) - 53)"
    using round_binary64_error[of x] pos by (simp add: E_def)
  have "2 powi (max E (- 1022) - 53) \<le> x / 2 ^ 53 + 1 / 2 ^ 1075"
  proof (cases "- 1022 \<le> E")
    case True
    have "(2::real) powi (E - 53) = 2 powi E / 2 powi 53"
      by (intro power_int_diff) simp
    also have "\<dots> \<le> x / 2 ^ 53"
      using E by (simp add: divide_right_mono)
    finally show ?thesis
      using True by (simp add: max_def)
  next
    case False
    then have "max E (- 1022) - 53 = - 1075" by simp
    moreover have "(2::real) powi (- 1075) = 1 / 2 ^ 1075"
      by (simp add: power_int_minus_divide)
    ultimately show ?thesis
      using pos by simp
  qed
  then show ?thesis using err by linarith
qed

lemma round_binary64_exact:
  assumes "\<bar>k\<bar> < 2 ^ 53" "- 1074 \<le> j"
  shows "round_binary64 (real_of_int k * 2 powi j) = real_of_int k * 2 powi j"
proof (cases "k = 0")
  case True
  then show ?thesis by (simp add: round_binary64_def)
next
  case False
  define x where "x = real_of_int k * 2 powi j"
  have x0: "x \<noteq> 0" using False by (simp add: x_def)
  then have pos: "0 < \<bar>x\<bar>" by simp
  define E where "E = binary_exponent \<bar>x\<bar>"
  have E: "2 powi E \<le> \<bar>x\<bar>"
    using binary_exponent_bounds[OF pos] by (simp add: E_def)
  have "real_of_int \<bar>k\<bar> < real_of_int (2 ^ 53)"
    using assms(1) by (simp only: of_int_less_iff)
  then have "\<bar>real_of_int k\<bar> < 2 ^ 53" by simp
  then have "\<bar>x\<bar> < 2 ^ 53 * 2 powi j"
    by (simp add: x_def abs_mult)
  also have "\<dots> = 2 powi (53 + j)"
    by (simp add: power_int_add)
  finally have xlt: "\<bar>x\<bar> < 2 powi (53 + j)" .
  have "\<not> 53 + j \<le> E"
  proof
    assume "53 + j \<le> E"
    then have "(2::real) powi (53 + j) \<le> 2 powi E"
      by (intro power_int_increasing) simp_all
    then show False using E xlt by linarith
  qed
  then have e: "max E (- 1022) - 52 \<le> j"
    using assms(2) by simp
  define s where "s = max E (- 1022) - 52"
  define n where "n = nat (j - s)"
  have j: "j = s + int n" using e by (simp add: n_def s_def)
  have "x / 2 powi s = real_of_int k * (2 powi (s + int n) / 2 powi s)"
    by (simp add: x_def j)
  also have "(2::real) powi (s + int n) / 2 powi s = 2 ^ n"
    by (simp add: power_int_add)
  finally have q: "x / 2 powi s = real_of_int (k * 2 ^ n)" by simp
  have "round_binary64 x = real_of_int (round_half_even (x / 2 powi s)) * 2 powi s"
    using x0 by (simp add: round_binary64_def Let_def E_def s_def)
  also have "\<dots> = real_of_int (k * 2 ^ n) * 2 powi s"
    by (simp only: q round_half_even_of_int)
  also have "\<dots> = x"
    by (simp add: x_def j power_int_add)
  finally show ?thesis by (simp add: x_def)
qed

lemma round_binary64_of_int:
  "\<bar>k\<bar> < 2 ^ 53 \<Longrightarrow> round_binary64 (real_of_int k) = real_of_int k"
  using round_binary64_exact[of k 0] by simp

section \<open>Float operations in range\<close>

text \<open>
  An integer below \<open>2 ^ 1024 - 2 ^ 970\<close> converts to a float that exceeds it by a relative
  \<open>2 powi - 53\<close> at most; a quotient of a smaller by a larger positive integer is a float
  close to the exact quotient; and a dimension scaled by such a quotient truncates to an
  integer no larger than the exact scaled value allows.
\<close>

lemma int_to_float_small:
  assumes "\<bar>n\<bar> < 2 ^ 53"
  shows "int_to_float n = Inr (real_of_int n)"
proof -
  have "real_of_int \<bar>n\<bar> < real_of_int (2 ^ 53)"
    using assms by (simp only: of_int_less_iff)
  then have "\<bar>real_of_int n\<bar> < 2 ^ 53" by simp
  moreover have "(2::real) ^ 53 \<le> 2 ^ 1024" by simp
  ultimately have "\<bar>real_of_int n\<bar> < 2 ^ 1024" by linarith
  then show ?thesis
    using round_binary64_of_int[OF assms] by (simp add: int_to_float_def finite_or_overflow_def)
qed

lemma round_binary64_of_nat_upper:
  assumes "0 \<le> n"
  shows "round_binary64 (real_of_int n) \<le> real_of_int n + real_of_int n / 2 ^ 53"
proof (cases "n = 0")
  case True
  then show ?thesis by (simp add: round_binary64_def)
next
  case False
  define x where "x = real_of_int n"
  have x1: "1 \<le> x" using False assms by (simp add: x_def)
  then have pos: "0 < x" by simp
  define E where "E = binary_exponent x"
  have E: "2 powi E \<le> x" "x < 2 powi (E + 1)"
    using binary_exponent_bounds[OF pos] by (simp_all add: E_def)
  have "\<not> E + 1 \<le> 0"
  proof
    assume "E + 1 \<le> 0"
    then have "(2::real) powi (E + 1) \<le> 2 powi 0"
      by (intro power_int_increasing) simp_all
    then show False using E(2) x1 by simp
  qed
  then have m: "max E (- 1022) = E" by simp
  have err: "\<bar>round_binary64 x - x\<bar> \<le> 2 powi (E - 53)"
    using round_binary64_error[of x] pos m by (simp add: E_def)
  have "(2::real) powi (E - 53) = 2 powi E / 2 powi 53"
    by (intro power_int_diff) simp
  also have "\<dots> \<le> x / 2 ^ 53"
    using E(1) by (simp add: divide_right_mono)
  finally show ?thesis using err by (simp add: x_def)
qed

lemma int_to_float_in_range:
  assumes "0 \<le> n" "n < 2 ^ 1024 - 2 ^ 970"
  shows "\<exists>a. int_to_float n = Inr a \<and> 0 \<le> a \<and> a \<le> real_of_int n + real_of_int n / 2 ^ 53"
proof (cases "n = 0")
  case True
  then show ?thesis
    by (simp add: int_to_float_def round_binary64_def finite_or_overflow_def)
next
  case False
  define x where "x = real_of_int n"
  have x1: "1 \<le> x" using False assms by (simp add: x_def)
  then have pos: "0 < x" by simp
  have "real_of_int n < real_of_int (2 ^ 1024 - 2 ^ 970)"
    using assms(2) by (simp only: of_int_less_iff)
  then have xT: "x < 2 ^ 1024 - 2 ^ 970" by (simp add: x_def)
  define E where "E = binary_exponent x"
  have E: "2 powi E \<le> x"
    using binary_exponent_bounds[OF pos] by (simp add: E_def)
  have "\<not> 1024 \<le> E"
  proof
    assume "1024 \<le> E"
    then have "(2::real) powi 1024 \<le> 2 powi E"
      by (intro power_int_increasing) simp_all
    then show False using E xT by simp
  qed
  then have "max E (- 1022) - 53 \<le> 970" by simp
  then have "(2::real) powi (max E (- 1022) - 53) \<le> 2 powi 970"
    by (intro power_int_increasing) simp_all
  then have "\<bar>round_binary64 x - x\<bar> \<le> 2 ^ 970"
    using round_binary64_error[of x] pos by (simp add: E_def)
  then have lt: "round_binary64 x < 2 ^ 1024"
    using xT by linarith
  have ge: "0 \<le> round_binary64 x"
    using pos by (intro round_binary64_nonneg) simp
  have "\<bar>round_binary64 x\<bar> < 2 ^ 1024" using lt ge by simp
  then show ?thesis
    using ge round_binary64_of_nat_upper[OF assms(1)]
    by (simp add: int_to_float_def finite_or_overflow_def x_def)
qed

lemma truediv_scale:
  assumes "0 < B" "B < d"
  shows "\<exists>s. truediv B d = Inr s \<and> 0 \<le> s \<and>
             s \<le> real_of_int B / real_of_int d + real_of_int B / real_of_int d / 2 ^ 53 + 1 / 2 ^ 1075"
proof -
  define q where "q = real_of_int B / real_of_int d"
  have q: "0 \<le> q" "q \<le> 1" using assms by (simp_all add: q_def)
  have ge: "0 \<le> round_binary64 q" using q by (intro round_binary64_nonneg)
  have up: "round_binary64 q \<le> q + q / 2 ^ 53 + 1 / 2 ^ 1075"
    using q by (intro round_binary64_upper)
  have "q / 2 ^ 53 \<le> 1" using q by (simp add: field_simps)
  moreover have "(1::real) / 2 ^ 1075 \<le> 1" by simp
  ultimately have "round_binary64 q \<le> 3" using up q by linarith
  moreover have "(3::real) < 2 ^ 1024" by simp
  ultimately have "\<bar>round_binary64 q\<bar> < 2 ^ 1024" using ge by simp
  then show ?thesis
    using assms ge up by (simp add: truediv_def finite_or_overflow_def q_def)
qed

lemma scaled_dimension:
  assumes n: "0 \<le> n" "n < 2 ^ 1024 - 2 ^ 970"
    and s: "0 \<le> s" "s \<le> q + q / 2 ^ 53 + 1 / 2 ^ 1075"
    and q: "0 \<le> q" "real_of_int n * q \<le> real_of_int K"
    and K: "0 \<le> K" "K \<le> 2048"
  shows "\<exists>p. int_mul_float n s = Inr p \<and> 0 \<le> py_int p \<and> py_int p \<le> K"
proof -
  define c :: real where "c = 1 + 1 / 2 ^ 53"
  define eta :: real where "eta = 1 / 2 ^ 1075"
  have c: "0 \<le> c" "c \<le> 2" "c * c \<le> 1 + 1 / 2 ^ 51"
    by (simp_all add: c_def)
  have eta: "0 \<le> eta" by (simp add: eta_def)
  obtain a where a: "int_to_float n = Inr a" "0 \<le> a" "a \<le> real_of_int n + real_of_int n / 2 ^ 53"
    using int_to_float_in_range[OF n] by blast
  have a_le: "a \<le> real_of_int n * c"
    using a(3) by (simp add: c_def algebra_simps)
  have s_le: "s \<le> q * c + eta"
    using s(2) by (simp add: c_def eta_def algebra_simps)
  have rn: "0 \<le> real_of_int n" using n(1) by simp
  have "real_of_int n < real_of_int (2 ^ 1024 - 2 ^ 970)"
    using n(2) by (simp only: of_int_less_iff)
  then have rn_le: "real_of_int n \<le> 2 ^ 1024" by simp
  have rK: "0 \<le> real_of_int K" "real_of_int K \<le> 2048" using K by simp_all
  define x where "x = a * s"
  have x0: "0 \<le> x" using a(2) s(1) by (simp add: x_def)
  have "x \<le> (real_of_int n * c) * (q * c + eta)"
    unfolding x_def using a_le s_le s(1) rn c(1) by (intro mult_mono) simp_all
  also have "\<dots> = (real_of_int n * q) * (c * c) + (real_of_int n * c) * eta"
    by (simp add: algebra_simps)
  finally have x1: "x \<le> (real_of_int n * q) * (c * c) + (real_of_int n * c) * eta" .
  have t1: "(real_of_int n * q) * (c * c) \<le> real_of_int K * (1 + 1 / 2 ^ 51)"
  proof -
    have "0 \<le> c * c" using c(1) by simp
    then have "(real_of_int n * q) * (c * c) \<le> real_of_int K * (c * c)"
      using q(2) by (intro mult_right_mono)
    also have "\<dots> \<le> real_of_int K * (1 + 1 / 2 ^ 51)"
      using c(3) rK(1) by (intro mult_left_mono)
    finally show ?thesis .
  qed
  have t1': "real_of_int K * (1 + 1 / 2 ^ 51) \<le> real_of_int K + 1 / 2 ^ 40"
  proof -
    have "real_of_int K * (1 / 2 ^ 51) \<le> 2048 * (1 / 2 ^ 51)"
      using rK(2) by (intro mult_right_mono) simp_all
    then show ?thesis by (simp add: algebra_simps)
  qed
  have t2: "(real_of_int n * c) * eta \<le> 1 / 2 ^ 50"
  proof -
    have "real_of_int n * c \<le> 2 ^ 1024 * 2"
      using rn_le c rn by (intro mult_mono) simp_all
    then have "(real_of_int n * c) * eta \<le> (2 ^ 1024 * 2) * eta"
      using eta by (intro mult_right_mono)
    also have "\<dots> = 1 / 2 ^ 50" by (simp add: eta_def)
    finally show ?thesis .
  qed
  have x2: "x \<le> real_of_int K + 1 / 2 ^ 39"
  proof -
    have "x \<le> real_of_int K + 1 / 2 ^ 40 + 1 / 2 ^ 50"
      using x1 t1 t1' t2 by linarith
    moreover have "(1::real) / 2 ^ 40 + 1 / 2 ^ 50 \<le> 1 / 2 ^ 39" by simp
    ultimately show ?thesis by linarith
  qed
  define p where "p = round_binary64 x"
  have p0: "0 \<le> p" unfolding p_def using x0 by (rule round_binary64_nonneg)
  have p1: "p \<le> x + x / 2 ^ 53 + 1 / 2 ^ 1075"
    unfolding p_def using x0 by (rule round_binary64_upper)
  have x3: "x \<le> 2049"
  proof -
    have "(1::real) / 2 ^ 39 \<le> 1" by simp
    then show ?thesis using x2 rK(2) by linarith
  qed
  have "x / 2 ^ 53 \<le> 2049 / 2 ^ 53"
    using x3 by (intro divide_right_mono) simp_all
  moreover have "(2049::real) / 2 ^ 53 + 1 / 2 ^ 1075 + 1 / 2 ^ 39 < 1" by simp
  ultimately have p2: "p < real_of_int K + 1"
    using p1 x2 by linarith
  have "p < 2050" using p2 rK(2) by linarith
  moreover have "(2050::real) < 2 ^ 1024" by simp
  ultimately have fin: "\<bar>p\<bar> < 2 ^ 1024" using p0 by simp
  have "int_mul_float n s = Inr p"
    using a(1) fin by (simp add: int_mul_float_def bind_err_def finite_or_overflow_def p_def x_def)
  moreover have "0 \<le> py_int p" using p0 by (simp add: py_int_def)
  moreover have "py_int p \<le> K"
  proof -
    have "p < real_of_int (K + 1)" using p2 by simp
    then have "\<lfloor>p\<rfloor> < K + 1" by (simp only: floor_less_iff)
    then show ?thesis using p0 by (simp add: py_int_def)
  qed
  ultimately show ?thesis by blast
qed

lemma truediv_tiles:
  assumes "0 \<le> w" "w \<le> 2048"
  shows "truediv w 512 = Inr (real_of_int w / 512)"
proof -
  have k: "\<bar>w\<bar> < 2 ^ 53" using assms by simp
  have e: "real_of_int w * 2 powi (- 9) = real_of_int w / 512"
    by (simp add: power_int_minus_divide)
  have r: "round_binary64 (real_of_int w / 512) = real_of_int w / 512"
    using round_binary64_exact[OF k, of "- 9"] by (simp only: e)
  have "\<bar>real_of_int w / 512\<bar> \<le> 4" using assms by simp
  moreover have "(4::real) < 2 ^ 1024" by simp
  ultimately have "\<bar>real_of_int w / 512\<bar> < 2 ^ 1024" by linarith
  then show ?thesis
    by (simp add: truediv_def finite_or_overflow_def r)
qed

lemma tiles_bound:
  assumes "0 \<le> w" "w \<le> K * 512" 
  shows "0 \<le> \<lceil>real_of_int w / 512\<rceil> \<and> \<lceil>real_of_int w / 512\<rceil> \<le> K"
proof -
  have "real_of_int w \<le> real_of_int (K * 512)"
    using assms(2) by (simp only: of_int_le_iff)
  then have "real_of_int w / 512 \<le> real_of_int K" by simp
  then have "\<lceil>real_of_int w / 512\<rceil> \<le> K" by (simp only: ceiling_le_iff)
  moreover have "0 \<le> real_of_int w / 512" using assms(1) by simp
  then have "0 \<le> \<lceil>real_of_int w / 512\<rceil>" by (simp add: ceiling_le_iff flip: not_less) 
  ultimately show ?thesis by simp
qed

lemma resize_stage:
  assumes w: "0 \<le> w" "w < 2 ^ 1024 - 2 ^ 970"
    and h: "0 \<le> h" "h < 2 ^ 1024 - 2 ^ 970"
    and d: "B < d" and B: "0 < B"
    and Kw: "w * B \<le> Kw * d" "0 \<le> Kw" "Kw \<le> 2048"
    and Kh: "h * B \<le> Kh * d" "0 \<le> Kh" "Kh \<le> 2048"
  shows "\<exists>w' h'.
           bind_err (truediv B d) (\<lambda>scale_factor.
           bind_err (int_mul_float w scale_factor) (\<lambda>scaled_width.
           bind_err (int_mul_float h scale_factor) (\<lambda>scaled_height.
           Inr (py_int scaled_width, py_int scaled_height)))) = Inr (w', h') \<and>
           0 \<le> w' \<and> w' \<le> Kw \<and> 0 \<le> h' \<and> h' \<le> Kh"
proof -
  define q where "q = real_of_int B / real_of_int d"
  have dpos: "0 < real_of_int d" using d B by simp
  have q0: "0 \<le> q" using d B by (simp add: q_def)
  obtain s where s: "truediv B d = Inr s" "0 \<le> s" "s \<le> q + q / 2 ^ 53 + 1 / 2 ^ 1075"
    using truediv_scale[OF B d] unfolding q_def by blast
  have qw: "real_of_int w * q \<le> real_of_int Kw"
  proof -
    have "real_of_int (w * B) \<le> real_of_int (Kw * d)"
      using Kw(1) by (simp only: of_int_le_iff)
    then have "real_of_int w * real_of_int B \<le> real_of_int Kw * real_of_int d" by simp
    then show ?thesis using dpos by (simp add: q_def field_simps)
  qed
  have qh: "real_of_int h * q \<le> real_of_int Kh"
  proof -
    have "real_of_int (h * B) \<le> real_of_int (Kh * d)"
      using Kh(1) by (simp only: of_int_le_iff)
    then have "real_of_int h * real_of_int B \<le> real_of_int Kh * real_of_int d" by simp
    then show ?thesis using dpos by (simp add: q_def field_simps)
  qed
  obtain pw where pw: "int_mul_float w s = Inr pw" "0 \<le> py_int pw" "py_int pw \<le> Kw"
    using scaled_dimension[OF w s(2,3) q0 qw Kw(2,3)] by blast
  obtain ph where ph: "int_mul_float h s = Inr ph" "0 \<le> py_int ph" "py_int ph \<le> Kh"
    using scaled_dimension[OF h s(2,3) q0 qh Kh(2,3)] by blast
  show ?thesis
    using s(1) pw ph by (simp add: bind_err_def)
qed

lemma tiles_total:
  assumes "0 \<le> w" "0 \<le> h" "w \<le> 2048" "h \<le> 2048" "min w h \<le> 768"
  shows "\<exists>n. bind_err (truediv w 512) (\<lambda>tiles_w.
              bind_err (truediv h 512) (\<lambda>tiles_h.
              let num_masks_w = math_ceil tiles_w;
                  num_masks_h = math_ceil tiles_h;
                  total_masks = num_masks_w * num_masks_h;
                  tokens_per_mask = 170;
                  total_tokens = total_masks * tokens_per_mask + 85
              in Inr total_tokens)) = Inr n \<and> 85 \<le> n \<and> n \<le> 1445"
proof -
  define a where "a = \<lceil>real_of_int w / 512\<rceil>"
  define b where "b = \<lceil>real_of_int h / 512\<rceil>"
  have a: "0 \<le> a" "a \<le> 4" using tiles_bound[of w 4] assms by (simp_all add: a_def)
  have b: "0 \<le> b" "b \<le> 4" using tiles_bound[of h 4] assms by (simp_all add: b_def)
  have ab: "0 \<le> a * b" using a(1) b(1) by simp
  have "a * b \<le> 8"
  proof (cases "w \<le> 768")
    case True
    then have "a \<le> 2" using tiles_bound[of w 2] assms by (simp add: a_def)
    then have "a * b \<le> 2 * 4" using a b by (intro mult_mono) simp_all
    then show ?thesis by simp
  next
    case False
    then have "h \<le> 768" using assms(5) by simp
    then have "b \<le> 2" using tiles_bound[of h 2] assms by (simp add: b_def)
    then have "a * b \<le> 4 * 2" using a b by (intro mult_mono) simp_all
    then show ?thesis by simp
  qed
  then show ?thesis
    using ab truediv_tiles[of w] truediv_tiles[of h] assms
    by (simp add: bind_err_def math_ceil_def Let_def a_def b_def mult.commute)
qed

section \<open>Float operations on concrete values\<close>

text \<open>
  A float in a known binade below \<open>2 ^ 53\<close> is an integer multiple of the unit in the last
  place of that binade; this evaluates the scale factors and products of single images.
\<close>

lemma round_binary64_below_2_53:
  assumes "2 powi k \<le> \<bar>x\<bar>" "\<bar>x\<bar> < 2 powi (k + 1)" "- 1022 \<le> k" "k \<le> 52"
  shows "round_binary64 x = real_of_int (round_half_even (x * 2 ^ nat (52 - k))) / 2 ^ nat (52 - k)"
proof -
  have m: "max k (- 1022) = k" using assms(3) by simp
  have "(2::real) powi (k - 52) = 2 powi (- (52 - k))" by simp
  also have "\<dots> = 1 / 2 powi (52 - k)" by (rule power_int_minus_divide)
  also have "\<dots> = 1 / 2 ^ nat (52 - k)"
    using assms(4) by (simp add: power_int_nonneg_exp)
  finally have u: "(2::real) powi (k - 52) = 1 / 2 ^ nat (52 - k)" .
  show ?thesis
    using round_binary64_eq[OF assms(1,2)] by (simp add: m u)
qed

lemma round_binary64_from_2_52:
  assumes "2 powi k \<le> \<bar>x\<bar>" "\<bar>x\<bar> < 2 powi (k + 1)" "52 \<le> k"
  shows "round_binary64 x = real_of_int (round_half_even (x / 2 ^ nat (k - 52))) * 2 ^ nat (k - 52)"
proof -
  have m: "max k (- 1022) = k" using assms(3) by simp
  have u: "(2::real) powi (k - 52) = 2 ^ nat (k - 52)"
    using assms(3) by (simp add: power_int_nonneg_exp)
  show ?thesis
    using round_binary64_eq[OF assms(1,2)] by (simp add: m u)
qed

text \<open>
  Two checks of the rounding against known floats: one tenth is the float
  \<^verbatim>\<open>0x1.999999999999ap-4\<close>, and the integers that convert to a float end just below
  \<open>2 ^ 1024 - 2 ^ 970\<close>, the midpoint between the largest float and \<open>2 ^ 1024\<close>.
\<close>

lemma round_binary64_tenth: "round_binary64 (1 / 10) = 3602879701896397 / 36028797018963968"
proof -
  have r: "round_half_even (1 / 10 * 2 ^ 56) = 7205759403792794"
    by (simp add: round_half_even_def Let_def)
  have "round_binary64 (1 / 10) =
        real_of_int (round_half_even (1 / 10 * 2 ^ nat (52 - (- 4)))) / 2 ^ nat (52 - (- 4))"
    by (rule round_binary64_below_2_53) (simp_all add: power_int_minus_divide)
  then show ?thesis using r by simp
qed

lemma int_to_float_threshold:
  "int_to_float (2 ^ 1024 - 2 ^ 970) = Inl OverflowError"
  "int_to_float (2 ^ 1024 - 2 ^ 970 - 1) = Inr (2 ^ 1024 - 2 ^ 971)"
proof -
  define x :: real where "x = 2 ^ 1024 - 2 ^ 970"
  have r: "round_half_even (x / 2 ^ 971) = 2 ^ 53"
    by (simp add: x_def round_half_even_def Let_def)
  have "round_binary64 x =
        real_of_int (round_half_even (x / 2 ^ nat (1023 - 52))) * 2 ^ nat (1023 - 52)"
    by (rule round_binary64_from_2_52) (simp_all add: x_def)
  then have "round_binary64 x = 2 ^ 1024"
    using r by simp
  then show "int_to_float (2 ^ 1024 - 2 ^ 970) = Inl OverflowError"
    by (simp add: int_to_float_def finite_or_overflow_def x_def)
  define y :: real where "y = 2 ^ 1024 - 2 ^ 970 - 1"
  have r: "round_half_even (y / 2 ^ 971) = 2 ^ 53 - 1"
    by (simp add: y_def round_half_even_def Let_def)
  have "round_binary64 y =
        real_of_int (round_half_even (y / 2 ^ nat (1023 - 52))) * 2 ^ nat (1023 - 52)"
    by (rule round_binary64_from_2_52) (simp_all add: y_def)
  then have "round_binary64 y = 2 ^ 1024 - 2 ^ 971"
    using r by simp
  then show "int_to_float (2 ^ 1024 - 2 ^ 970 - 1) = Inr (2 ^ 1024 - 2 ^ 971)"
    by (simp add: int_to_float_def finite_or_overflow_def y_def)
qed

text \<open>The scale factors and the scaled dimensions of an image of 1567 by 3136.\<close>

lemma scale_2048_3136: "round_binary64 (2048 / 3136) = 5882252574524729 / 9007199254740992"
proof -
  have r: "round_half_even (2048 / 3136 * 2 ^ 53) = 5882252574524729"
    by (simp add: round_half_even_def Let_def)
  have "round_binary64 (2048 / 3136) =
        real_of_int (round_half_even (2048 / 3136 * 2 ^ nat (52 - (- 1)))) / 2 ^ nat (52 - (- 1))"
    by (rule round_binary64_below_2_53) (simp_all add: power_int_minus_divide)
  then show ?thesis using r by simp
qed


lemma width_1567_scaled:
  "int_mul_float 1567 (5882252574524729 / 9007199254740992) = Inr (4500727433730591 / 4398046511104)"
proof -
  define x :: real where "x = 1567 * (5882252574524729 / 9007199254740992)"
  have r: "round_half_even (x * 2 ^ 43) = 9001454867461182"
    by (simp add: x_def round_half_even_def Let_def)
  have "round_binary64 x =
        real_of_int (round_half_even (x * 2 ^ nat (52 - 9))) / 2 ^ nat (52 - 9)"
    by (rule round_binary64_below_2_53) (simp_all add: x_def)
  then have v: "round_binary64 x = 4500727433730591 / 4398046511104"
    using r by simp
  have c: "int_to_float 1567 = Inr 1567"
    using int_to_float_small[of 1567] by simp
  show ?thesis
    using v c by (simp add: int_mul_float_def bind_err_def finite_or_overflow_def x_def)
qed

lemma height_3136_scaled:
  "int_mul_float 3136 (5882252574524729 / 9007199254740992) = Inr (9007199254740991 / 4398046511104)"
proof -
  define x :: real where "x = 3136 * (5882252574524729 / 9007199254740992)"
  have r: "round_half_even (x * 2 ^ 42) = 9007199254740991"
    by (simp add: x_def round_half_even_def Let_def)
  have "round_binary64 x =
        real_of_int (round_half_even (x * 2 ^ nat (52 - 10))) / 2 ^ nat (52 - 10)"
    by (rule round_binary64_below_2_53) (simp_all add: x_def)
  then have v: "round_binary64 x = 9007199254740991 / 4398046511104"
    using r by simp
  have c: "int_to_float 3136 = Inr 3136"
    using int_to_float_small[of 3136] by simp
  show ?thesis
    using v c by (simp add: int_mul_float_def bind_err_def finite_or_overflow_def x_def)
qed

lemma scale_768_1023: "round_binary64 (768 / 1023) = 3381001479785475 / 4503599627370496"
proof -
  have r: "round_half_even (768 / 1023 * 2 ^ 53) = 6762002959570950"
    by (simp add: round_half_even_def Let_def)
  have "round_binary64 (768 / 1023) =
        real_of_int (round_half_even (768 / 1023 * 2 ^ nat (52 - (- 1)))) / 2 ^ nat (52 - (- 1))"
    by (rule round_binary64_below_2_53) (simp_all add: power_int_minus_divide)
  then show ?thesis using r by simp
qed

lemma width_1023_scaled:
  "int_mul_float 1023 (3381001479785475 / 4503599627370496) = Inr 768"
proof -
  define x :: real where "x = 1023 * (3381001479785475 / 4503599627370496)"
  have r: "round_half_even (x * 2 ^ 43) = 6755399441055744"
    by (simp add: x_def round_half_even_def Let_def)
  have "round_binary64 x =
        real_of_int (round_half_even (x * 2 ^ nat (52 - 9))) / 2 ^ nat (52 - 9)"
    by (rule round_binary64_below_2_53) (simp_all add: x_def)
  then have v: "round_binary64 x = 768"
    using r by simp
  have c: "int_to_float 1023 = Inr 1023"
    using int_to_float_small[of 1023] by simp
  show ?thesis
    using v c by (simp add: int_mul_float_def bind_err_def finite_or_overflow_def x_def)
qed

lemma height_2047_scaled:
  "int_mul_float 2047 (3381001479785475 / 4503599627370496) = Inr (6758701200313347 / 4398046511104)"
proof -
  define x :: real where "x = 2047 * (3381001479785475 / 4503599627370496)"
  have r: "round_half_even (x * 2 ^ 42) = 6758701200313347"
    by (simp add: x_def round_half_even_def Let_def)
  have "round_binary64 x =
        real_of_int (round_half_even (x * 2 ^ nat (52 - 10))) / 2 ^ nat (52 - 10)"
    by (rule round_binary64_below_2_53) (simp_all add: x_def)
  then have v: "round_binary64 x = 6758701200313347 / 4398046511104"
    using r by simp
  have c: "int_to_float 2047 = Inr 2047"
    using int_to_float_small[of 2047] by simp
  show ?thesis
    using v c by (simp add: int_mul_float_def bind_err_def finite_or_overflow_def x_def)
qed

lemma truediv_2048_3136: "truediv 2048 3136 = Inr (5882252574524729 / 9007199254740992)"
  using scale_2048_3136 by (simp add: truediv_def finite_or_overflow_def)

lemma truediv_768_1023: "truediv 768 1023 = Inr (3381001479785475 / 4503599627370496)"
  using scale_768_1023 by (simp add: truediv_def finite_or_overflow_def)

lemma py_int_values:
  "py_int (4500727433730591 / 4398046511104) = 1023"
  "py_int (9007199254740991 / 4398046511104) = 2047"
  "py_int 768 = 768"
  "py_int (6758701200313347 / 4398046511104) = 1536"
  by (simp_all add: py_int_def)

lemma tiles_768_1536:
  "truediv 768 512 = Inr (3 / 2)" "truediv 1536 512 = Inr 3"
  using truediv_tiles[of 768] truediv_tiles[of 1536] by simp_all

section \<open>Image tokens\<close>

text \<open>
  Claim C7. For all widths and heights, \<open>calculate_image_tokens\<close> with detail \<^verbatim>\<open>low\<close>
  returns 85, whatever the dimensions.
\<close>

theorem calculate_image_tokens_low:
  "calculate_image_tokens width height ''low'' = Inr 85"
  by (simp add: calculate_image_tokens_def)

text \<open>
  Claim C10, amended. For every width and height that are not negative and are below
  \<open>2 ^ 1024 - 2 ^ 970\<close> (the integers that convert to a float), and for every detail,
  \<open>calculate_image_tokens\<close> returns a number of tokens that is at least 85 and at most
  1445: after the two resize stages both dimensions lie between 0 and 2048 and the smaller
  one is at most 768, so there are at most 8 tiles.
\<close>

theorem calculate_image_tokens_bounds:
  assumes "0 \<le> width" "0 \<le> height"
    and "width < 2 ^ 1024 - 2 ^ 970" "height < 2 ^ 1024 - 2 ^ 970"
  shows "\<exists>n. calculate_image_tokens width height detail = Inr n \<and> 85 \<le> n \<and> n \<le> 1445"
proof (cases "detail = ''low''")
  case True
  then show ?thesis by (simp add: calculate_image_tokens_def)
next
  case False
  define stage1 where "stage1 =
    (if max width height > 2048 then
       bind_err (truediv 2048 (max width height)) (\<lambda>scale_factor.
       bind_err (int_mul_float width scale_factor) (\<lambda>scaled_width.
       bind_err (int_mul_float height scale_factor) (\<lambda>scaled_height.
       Inr (py_int scaled_width, py_int scaled_height))))
     else Inr (width, height))"
  have "\<exists>w1 h1. stage1 = Inr (w1, h1) \<and> 0 \<le> w1 \<and> w1 \<le> 2048 \<and> 0 \<le> h1 \<and> h1 \<le> 2048"
  proof (cases "max width height > 2048")
    case True
    have "width * 2048 \<le> 2048 * max width height" "height * 2048 \<le> 2048 * max width height"
      by simp_all
    then show ?thesis
      using resize_stage[of width height 2048 "max width height" 2048 2048] assms True
      by (simp add: stage1_def)
  next
    case False
    then have "width \<le> 2048" "height \<le> 2048" by simp_all
    then show ?thesis using assms(1,2) False by (simp add: stage1_def)
  qed
  then obtain w1 h1 where s1: "stage1 = Inr (w1, h1)"
    and w1: "0 \<le> w1" "w1 \<le> 2048" and h1: "0 \<le> h1" "h1 \<le> 2048"
    by blast
  define stage2 where "stage2 =
    (if min w1 h1 > 768 then
       bind_err (truediv 768 (min w1 h1)) (\<lambda>scale_factor.
       bind_err (int_mul_float w1 scale_factor) (\<lambda>scaled_width.
       bind_err (int_mul_float h1 scale_factor) (\<lambda>scaled_height.
       Inr (py_int scaled_width, py_int scaled_height))))
     else Inr (w1, h1))"
  have "\<exists>w2 h2. stage2 = Inr (w2, h2) \<and> 0 \<le> w2 \<and> w2 \<le> 2048 \<and> 0 \<le> h2 \<and> h2 \<le> 2048
          \<and> min w2 h2 \<le> 768"
  proof (cases "min w1 h1 > 768")
    case True
    have small: "w1 < 2 ^ 1024 - 2 ^ 970" "h1 < 2 ^ 1024 - 2 ^ 970"
      using w1 h1 by simp_all
    show ?thesis
    proof (cases "w1 \<le> h1")
      case le: True
      then have m: "min w1 h1 = w1" by simp
      have "w1 * 768 \<le> 768 * w1" by simp
      moreover have "h1 * 768 \<le> 2048 * w1" using True m h1 by simp
      ultimately obtain w2 h2 where
        "bind_err (truediv 768 w1) (\<lambda>scale_factor.
           bind_err (int_mul_float w1 scale_factor) (\<lambda>scaled_width.
           bind_err (int_mul_float h1 scale_factor) (\<lambda>scaled_height.
           Inr (py_int scaled_width, py_int scaled_height)))) = Inr (w2, h2)"
        "0 \<le> w2" "w2 \<le> 768" "0 \<le> h2" "h2 \<le> 2048"
        using resize_stage[of w1 h1 768 w1 768 2048] w1 h1 small True m by auto
      then show ?thesis using True m by (simp add: stage2_def)
    next
      case ge: False
      then have m: "min w1 h1 = h1" by simp
      have "h1 * 768 \<le> 768 * h1" by simp
      moreover have "w1 * 768 \<le> 2048 * h1" using True m w1 by simp
      ultimately obtain w2 h2 where
        "bind_err (truediv 768 h1) (\<lambda>scale_factor.
           bind_err (int_mul_float w1 scale_factor) (\<lambda>scaled_width.
           bind_err (int_mul_float h1 scale_factor) (\<lambda>scaled_height.
           Inr (py_int scaled_width, py_int scaled_height)))) = Inr (w2, h2)"
        "0 \<le> w2" "w2 \<le> 2048" "0 \<le> h2" "h2 \<le> 768"
        using resize_stage[of w1 h1 768 h1 2048 768] w1 h1 small True m by auto
      then show ?thesis using True m by (simp add: stage2_def)
    qed
  next
    case False
    then have m: "min w1 h1 \<le> 768" by (simp only: not_less)
    have "stage2 = Inr (w1, h1)"
      unfolding stage2_def by (simp only: False if_False)
    then show ?thesis using w1 h1 m by blast
  qed
  then obtain w2 h2 where s2: "stage2 = Inr (w2, h2)"
    and w2: "0 \<le> w2" "w2 \<le> 2048" and h2: "0 \<le> h2" "h2 \<le> 2048"
    and m2: "min w2 h2 \<le> 768"
    by blast
  have "calculate_image_tokens width height detail =
        bind_err (truediv w2 512) (\<lambda>tiles_w.
        bind_err (truediv h2 512) (\<lambda>tiles_h.
        let num_masks_w = math_ceil tiles_w;
            num_masks_h = math_ceil tiles_h;
            total_masks = num_masks_w * num_masks_h;
            tokens_per_mask = 170;
            total_tokens = total_masks * tokens_per_mask + 85
        in Inr total_tokens))"
    using False s1 s2
    unfolding calculate_image_tokens_def stage1_def stage2_def
    by (simp add: bind_err_def Let_def)
  then show ?thesis
    using tiles_total[OF w2(1) h2(1) w2(2) h2(2) m2] by simp
qed

theorem calculate_image_tokens_bounds_witness:
  "(0::int) \<le> 1567 \<and> (0::int) \<le> 3136 \<and> (1567::int) < 2 ^ 1024 - 2 ^ 970 \<and>
   (3136::int) < 2 ^ 1024 - 2 ^ 970 \<and>
   (\<exists>n. calculate_image_tokens 1567 3136 ''high'' = Inr n \<and> 85 \<le> n \<and> n \<le> 1445)"
  using calculate_image_tokens_bounds[of 1567 3136 "''high''"] by simp

text \<open>
  A dimension of \<open>2 ^ 1024\<close> does not convert to a float: the first scaled product raises
  \<^verbatim>\<open>OverflowError\<close> and no token count is returned.
\<close>

theorem calculate_image_tokens_overflow:
  "calculate_image_tokens (2 ^ 1024) 1 ''high'' = Inl OverflowError"
proof -
  obtain s where s: "truediv 2048 (2 ^ 1024) = Inr s"
    using truediv_scale[of 2048 "2 ^ 1024"] by auto
  have "round_binary64 (real_of_int 1 * 2 powi 1024) = real_of_int 1 * 2 powi 1024"
    by (rule round_binary64_exact) simp_all
  then have "round_binary64 (2 ^ 1024) = 2 ^ 1024" by simp
  then have c: "int_to_float (2 ^ 1024) = Inl OverflowError"
    by (simp add: int_to_float_def finite_or_overflow_def)
  have m: "max (2 ^ 1024) (1::int) = 2 ^ 1024" by simp
  show ?thesis
    unfolding calculate_image_tokens_def Let_def m
    using s c by (simp add: bind_err_def int_mul_float_def)
qed

text \<open>
  Claim C2. The estimate scales by \<open>2048 / max\<close> and truncates, then scales the result by
  \<open>768 / min\<close> and truncates, and counts tiles of 512 on the final dimensions. On an image
  of 1567 by 3136 the code departs from that: the float product \<open>3136 * (2048 / 3136)\<close> is
  \<open>2048 - 2 powi - 42\<close> and truncates to 2047, the second stage then gives 768 by 1536
  where exact scaling gives 768 by 1537, and the code returns 6 tiles (1105 tokens) where
  the specification's arithmetic gives 8 tiles (1445 tokens).
\<close>

theorem calculate_image_tokens_1567_3136:
  "calculate_image_tokens 1567 3136 ''high'' = Inr 1105 \<and> spec_tokens_for_image 1567 3136 = 1445"
proof -
  have code: "calculate_image_tokens 1567 3136 ''high'' = Inr 1105"
    unfolding calculate_image_tokens_def
    by (simp add: bind_err_def truediv_2048_3136 width_1567_scaled height_3136_scaled
        truediv_768_1023 width_1023_scaled height_2047_scaled py_int_values tiles_768_1536
        math_ceil_def Let_def)
  have spec: "spec_tokens_for_image 1567 3136 = 1445"
    by (simp add: spec_tokens_for_image_def spec_scale_def Let_def)
  show ?thesis using code spec by simp
qed

text \<open>
  The two worked examples of the specification, where every quotient and product is exact:
  4096 by 4096 becomes 2048 by 2048, then 768 by 768, four tiles; 100 by 100 is one tile.
\<close>

lemma calculate_image_tokens_4096:
  "calculate_image_tokens 4096 4096 ''high'' = Inr 765" "spec_tokens_for_image 4096 4096 = 765"
proof -
  have h: "round_binary64 (1 / 2) = 1 / 2"
    using round_binary64_exact[of 1 "- 1"] by (simp add: power_int_minus_divide)
  have q: "round_binary64 (3 / 8) = 3 / 8"
    using round_binary64_exact[of 3 "- 3"] by (simp add: power_int_minus_divide)
  have t1: "truediv 2048 4096 = Inr (1 / 2)"
    using h by (simp add: truediv_def finite_or_overflow_def)
  have t2: "truediv 768 2048 = Inr (3 / 8)"
    using q by (simp add: truediv_def finite_or_overflow_def)
  have m1: "int_mul_float 4096 (1 / 2) = Inr 2048"
    using int_to_float_small[of 4096] round_binary64_of_int[of 2048]
    by (simp add: int_mul_float_def bind_err_def finite_or_overflow_def)
  have m2: "int_mul_float 2048 (3 / 8) = Inr 768"
    using int_to_float_small[of 2048] round_binary64_of_int[of 768]
    by (simp add: int_mul_float_def bind_err_def finite_or_overflow_def)
  have t3: "truediv 768 512 = Inr (3 / 2)"
    using truediv_tiles[of 768] by simp
  show "calculate_image_tokens 4096 4096 ''high'' = Inr 765"
    unfolding calculate_image_tokens_def
    by (simp add: bind_err_def t1 t2 m1 m2 t3 py_int_def math_ceil_def Let_def)
  show "spec_tokens_for_image 4096 4096 = 765"
    by (simp add: spec_tokens_for_image_def spec_scale_def Let_def)
qed

lemma calculate_image_tokens_100:
  "calculate_image_tokens 100 100 ''high'' = Inr 255" "spec_tokens_for_image 100 100 = 255"
proof -
  have t: "truediv 100 512 = Inr (25 / 128)"
    using truediv_tiles[of 100] by simp
  show "calculate_image_tokens 100 100 ''high'' = Inr 255"
    unfolding calculate_image_tokens_def
    by (simp add: bind_err_def t math_ceil_def Let_def)
  show "spec_tokens_for_image 100 100 = 255"
    by (simp add: spec_tokens_for_image_def spec_scale_def Let_def)
qed

text \<open>
  Where neither stage resizes (the longer side at most 2048, the shorter at most 768) no
  dimension is scaled, the tile quotients are exact, and the code returns what the
  specification's arithmetic gives.
\<close>

lemma calculate_image_tokens_no_resize:
  assumes "0 \<le> width" "0 \<le> height" "width \<le> 2048" "height \<le> 2048" "min width height \<le> 768"
    and "detail \<noteq> ''low''"
  shows "calculate_image_tokens width height detail = Inr (spec_tokens_for_image width height)"
proof -
  have m1: "(2048 < max width height) = False" using assms(3,4) by simp
  have m2: "(768 < min width height) = False" using assms(5) by (simp only: not_less [symmetric] simp_thms)
  have d: "(detail = ''low'') = False" using assms(6) by simp
  have code: "calculate_image_tokens width height detail =
        (case truediv width 512 of Inl e \<Rightarrow> Inl e
         | Inr tiles_w \<Rightarrow>
            (case truediv height 512 of Inl e \<Rightarrow> Inl e
             | Inr tiles_h \<Rightarrow> Inr (math_ceil tiles_w * math_ceil tiles_h * 170 + 85)))"
    unfolding calculate_image_tokens_def
    by (simp only: d m1 m2 if_False Let_def bind_err_def sum.case prod.case)
  have spec: "spec_tokens_for_image width height =
        \<lceil>real_of_int width / 512\<rceil> * \<lceil>real_of_int height / 512\<rceil> * 170 + 85"
    unfolding spec_tokens_for_image_def
    by (simp only: m1 m2 if_False Let_def)
  show ?thesis
    using truediv_tiles[OF assms(1,3)] truediv_tiles[OF assms(2,4)]
    by (simp add: code spec math_ceil_def)
qed

end
